theory Spec2Isabelle
  imports Main "HOL-Library.Sublist"
begin

section \<open>Strings of the page script\<close>

text \<open>
  A JavaScript string is a sequence of UTF-16 code units. A code unit is modelled by its
  number, so that the bullet U+2022 and the white space beyond ASCII are single elements,
  as they are for the regular expressions of \<^verbatim>\<open>script.js\<close>.
\<close>

type_synonym jsstring = "nat list"

definition js :: "string \<Rightarrow> jsstring" where
  "js = map of_char"

abbreviation LF :: nat where "LF \<equiv> 10"
abbreviation CR :: nat where "CR \<equiv> 13"
abbreviation SP :: nat where "SP \<equiv> 32"
abbreviation COLON :: nat where "COLON \<equiv> 58"
abbreviation DOT :: nat where "DOT \<equiv> 46"
abbreviation RPAREN :: nat where "RPAREN \<equiv> 41"

text \<open>
  The class \<^verbatim>\<open>\s\<close> of a regular expression, which is also what \<^verbatim>\<open>trim()\<close> strips:
  TAB, LF, VT, FF, CR, space, U+00A0, U+1680, U+2000 to U+200A, U+2028, U+2029, U+202F,
  U+205F, U+3000 and U+FEFF.
\<close>

definition isWhiteSpace :: "nat \<Rightarrow> bool" where
  "isWhiteSpace c \<longleftrightarrow>
     c = 9 \<or> c = 10 \<or> c = 11 \<or> c = 12 \<or> c = 13 \<or> c = 32 \<or> c = 160 \<or> c = 5760 \<or>
     (8192 \<le> c \<and> c \<le> 8202) \<or> c = 8232 \<or> c = 8233 \<or> c = 8239 \<or> c = 8287 \<or>
     c = 12288 \<or> c = 65279"

text \<open>The class \<^verbatim>\<open>\d\<close>: the ASCII digits only.\<close>

definition isDigit :: "nat \<Rightarrow> bool" where
  "isDigit c \<longleftrightarrow> 48 \<le> c \<and> c \<le> 57"

text \<open>\<^verbatim>\<open>String.prototype.trim\<close>.\<close>

definition trim :: "jsstring \<Rightarrow> jsstring" where
  "trim s = rev (dropWhile isWhiteSpace (rev (dropWhile isWhiteSpace s)))"

text \<open>\<^verbatim>\<open>text.replace(/\r\n/g, "\n")\<close>: one pass from the left, matches do not overlap.\<close>

fun replaceCRLF :: "jsstring \<Rightarrow> jsstring" where
  "replaceCRLF [] = []"
| "replaceCRLF [c] = [c]"
| "replaceCRLF (c # d # s) =
     (if c = CR \<and> d = LF then LF # replaceCRLF s else c # replaceCRLF (d # s))"

text \<open>\<^verbatim>\<open>Array.prototype.join\<close>.\<close>

fun joinWith :: "jsstring \<Rightarrow> jsstring list \<Rightarrow> jsstring" where
  "joinWith sep [] = []"
| "joinWith sep [x] = x"
| "joinWith sep (x # y # ys) = x @ sep @ joinWith sep (y # ys)"

text \<open>\<^verbatim>\<open>split("\n")\<close>: the pieces between the separators; the empty string gives one empty piece.\<close>

fun splitOn :: "nat \<Rightarrow> jsstring \<Rightarrow> jsstring list" where
  "splitOn sep [] = [[]]"
| "splitOn sep (c # s) =
     (if c = sep then [] # splitOn sep s
      else (case splitOn sep s of [] \<Rightarrow> [[c]] | p # ps \<Rightarrow> (c # p) # ps))"

text \<open>
  \<^verbatim>\<open>/\n\s*\n/\<close> tried at the start of a string. After the first LF the greedy \<^verbatim>\<open>\s*\<close>
  takes the whole run of white space and gives back until an LF follows, so the match ends
  after the last LF of that run. The result is the text after the match.
\<close>

definition afterLastLF :: "jsstring \<Rightarrow> jsstring" where
  "afterLastLF w = rev (takeWhile (\<lambda>c. c \<noteq> LF) (rev w))"

fun matchBlank :: "jsstring \<Rightarrow> jsstring option" where
  "matchBlank [] = None"
| "matchBlank (c # s) =
     (if c = LF \<and> LF \<in> set (takeWhile isWhiteSpace s)
      then Some (afterLastLF (takeWhile isWhiteSpace s) @ dropWhile isWhiteSpace s)
      else None)"

lemma length_afterLastLF: "length (afterLastLF w) \<le> length w"
  unfolding afterLastLF_def
  by (metis length_rev length_takeWhile_le)

lemma matchBlank_shorter: "matchBlank s = Some r \<Longrightarrow> length r < length s"
proof (cases s)
  case Nil
  assume "matchBlank s = Some r"
  with Nil show ?thesis by simp
next
  case (Cons c t)
  assume m: "matchBlank s = Some r"
  have split: "length (takeWhile isWhiteSpace t) + length (dropWhile isWhiteSpace t) = length t"
    by (metis length_append takeWhile_dropWhile_id)
  from m Cons have "r = afterLastLF (takeWhile isWhiteSpace t) @ dropWhile isWhiteSpace t"
    by (simp split: if_splits)
  then have "length r \<le> length t"
    using length_afterLastLF [of "takeWhile isWhiteSpace t"] split by simp
  with Cons show ?thesis by simp
qed

text \<open>
  \<^verbatim>\<open>split(/\n\s*\n/)\<close>: the separator is looked for at each position from the left; after a
  match the search goes on behind it; the text behind the last match is the last piece.
\<close>

function splitBlank :: "jsstring \<Rightarrow> jsstring list" where
  "splitBlank [] = [[]]"
| "splitBlank (c # s) =
     (case matchBlank (c # s) of
        Some r \<Rightarrow> [] # splitBlank r
      | None \<Rightarrow> (case splitBlank s of [] \<Rightarrow> [[c]] | p # ps \<Rightarrow> (c # p) # ps))"
  by pat_completeness auto
termination
proof (relation "measure length")
  show "wf (measure length)" by simp
next
  fix c s r
  assume "matchBlank (c # s) = Some r"
  then show "(r, c # s) \<in> measure length"
    using matchBlank_shorter [of "c # s" r] by simp
next
  fix c s
  show "(s, c # s) \<in> measure length" by simp
qed

text \<open>
  The paragraph units and the lines of a unit:
  \<^verbatim>\<open>normalized.split(/\n\s*\n/).map((p) => p.trim()).filter(Boolean)\<close> and
  \<^verbatim>\<open>para.split("\n").map((l) => l.trim()).filter(Boolean)\<close>.
\<close>

definition paragraphsOf :: "jsstring \<Rightarrow> jsstring list" where
  "paragraphsOf text =
     filter (\<lambda>p. p \<noteq> []) (map trim (splitBlank (trim (replaceCRLF text))))"

definition linesOf :: "jsstring \<Rightarrow> jsstring list" where
  "linesOf para = filter (\<lambda>l. l \<noteq> []) (map trim (splitOn LF para))"

section \<open>The regular expressions of the formatter\<close>

text \<open>
  Each pattern is used for \<^verbatim>\<open>test\<close> and for \<^verbatim>\<open>replace(pattern, "")\<close> only, and has no
  \<^verbatim>\<open>g\<close> flag. It is modelled by the function that takes its first match out of a string
  and gives None when there is no match.
\<close>

type_synonym pattern = "jsstring \<Rightarrow> jsstring option"

definition re_test :: "pattern \<Rightarrow> jsstring \<Rightarrow> bool" where
  "re_test re s \<longleftrightarrow> re s \<noteq> None"

definition re_replace :: "pattern \<Rightarrow> jsstring \<Rightarrow> jsstring" where
  "re_replace re s = (case re s of Some r \<Rightarrow> r | None \<Rightarrow> s)"

text \<open>
  \<^verbatim>\<open>/:\s*$/\<close>, looked for from the left: a colon with nothing but white space behind it.
  The match reaches the end of the string, so what is left is the text in front of it.
\<close>

fun matchColonEnd :: pattern where
  "matchColonEnd [] = None"
| "matchColonEnd (c # s) =
     (if c = COLON \<and> list_all isWhiteSpace s then Some []
      else map_option ((#) c) (matchColonEnd s))"

text \<open>
  The three marker patterns are anchored at the start, so what is left of a matching line
  is the text behind the marker. Every quantifier is greedy and none can give back: the
  character class that follows is disjoint from its own.
\<close>

text \<open>\<^verbatim>\<open>/^\s*\d+[\.\)]\s+/\<close>\<close>

definition matchNumbered :: pattern where
  "matchNumbered s =
     (let s1 = dropWhile isWhiteSpace s in
      if takeWhile isDigit s1 = [] then None
      else (case dropWhile isDigit s1 of
              [] \<Rightarrow> None
            | c # s3 \<Rightarrow>
                if (c = DOT \<or> c = RPAREN) \<and> takeWhile isWhiteSpace s3 \<noteq> []
                then Some (dropWhile isWhiteSpace s3) else None))"

text \<open>\<^verbatim>\<open>/^\s*[-*\<bullet>]\s+/\<close>, the third character of the class being U+2022.\<close>

definition matchBullet :: pattern where
  "matchBullet s =
     (case dropWhile isWhiteSpace s of
        [] \<Rightarrow> None
      | c # s2 \<Rightarrow>
          if (c = 45 \<or> c = 42 \<or> c = 8226) \<and> takeWhile isWhiteSpace s2 \<noteq> []
          then Some (dropWhile isWhiteSpace s2) else None)"

text \<open>
  \<^verbatim>\<open>/^\s*Step\s*\d+[:\.\)]\s*/i\<close>. Without the \<^verbatim>\<open>u\<close> flag, ignoring case compares upper-case
  forms and never lets a character beyond ASCII stand for an ASCII one, so each letter
  matches its two ASCII forms only.
\<close>

definition matchStep :: pattern where
  "matchStep s =
     (case dropWhile isWhiteSpace s of
        c1 # c2 # c3 # c4 # s1 \<Rightarrow>
          if (c1 = 83 \<or> c1 = 115) \<and> (c2 = 84 \<or> c2 = 116) \<and>
             (c3 = 69 \<or> c3 = 101) \<and> (c4 = 80 \<or> c4 = 112)
          then (let s2 = dropWhile isWhiteSpace s1 in
                if takeWhile isDigit s2 = [] then None
                else (case dropWhile isDigit s2 of
                        [] \<Rightarrow> None
                      | c # s3 \<Rightarrow>
                          if c = COLON \<or> c = DOT \<or> c = RPAREN
                          then Some (dropWhile isWhiteSpace s3) else None))
          else None
      | _ \<Rightarrow> None)"

section \<open>The formatter\<close>

datatype block =
    Heading jsstring
  | OrderedList "jsstring list"
  | UnorderedList "jsstring list"
  | Paragraph jsstring

text \<open>
  The loop that fills a list element, the items so far being the state: a line with a
  marker becomes a new last item, the text behind the marker trimmed; any other line is
  appended, behind one space, to the last item, and goes nowhere when there is none.
\<close>

fun fillList :: "pattern \<Rightarrow> jsstring list \<Rightarrow> jsstring list \<Rightarrow> jsstring list" where
  "fillList re items [] = items"
| "fillList re items (line # rest) =
     (if re_test re line then fillList re (items @ [trim (re_replace re line)]) rest
      else if items = [] then fillList re items rest
      else fillList re (butlast items @ [last items @ SP # line]) rest)"

text \<open>The body of \<^verbatim>\<open>paragraphs.forEach\<close> behind the heading case.\<close>

definition listOrParagraph :: "jsstring list \<Rightarrow> block list" where
  "listOrParagraph lines =
     (let isNumbered = (length (filter (re_test matchNumbered) lines) \<ge> 1);
          isBullet = (length (filter (re_test matchBullet) lines) \<ge> 1)
      in if isNumbered \<and> \<not> isBullet then [OrderedList (fillList matchNumbered [] lines)]
         else if isBullet \<and> \<not> isNumbered then [UnorderedList (fillList matchBullet [] lines)]
         else if length (filter (re_test matchStep) lines) \<ge> 2
              then [OrderedList (fillList matchStep [] lines)]
         else [Paragraph (joinWith [SP] lines)])"

subsection \<open>Every recursive call is on a shorter text\<close>

lemma length_trim: "length (trim s) \<le> length s"
proof -
  have "length (trim s) \<le> length (rev (dropWhile isWhiteSpace s))"
    unfolding trim_def length_rev [of "dropWhile isWhiteSpace (rev (dropWhile isWhiteSpace s))"]
    by (rule length_dropWhile_le)
  also have "\<dots> \<le> length s"
    by (simp add: length_dropWhile_le)
  finally show ?thesis .
qed

lemma length_replaceCRLF: "length (replaceCRLF s) \<le> length s"
  by (induction s rule: replaceCRLF.induct) auto

lemma splitBlank_not_Nil: "splitBlank s \<noteq> []"
  by (induction s rule: splitBlank.induct) (auto split: option.splits list.splits)

lemma splitOn_not_Nil: "splitOn sep s \<noteq> []"
  by (induction s) (auto split: list.splits)

lemma length_splitBlank: "p \<in> set (splitBlank s) \<Longrightarrow> length p \<le> length s"
proof (induction s arbitrary: p rule: splitBlank.induct)
  case 1
  then show ?case by simp
next
  case (2 c s)
  show ?case
  proof (cases "matchBlank (c # s)")
    case (Some r)
    with "2.prems" have "p = [] \<or> p \<in> set (splitBlank r)" by simp
    then show ?thesis
      using "2.IH"(2) [OF Some] matchBlank_shorter [OF Some] by fastforce
  next
    case None
    obtain q qs where q: "splitBlank s = q # qs"
      using splitBlank_not_Nil [of s] by (cases "splitBlank s") auto
    with "2.prems" None have "p = c # q \<or> p \<in> set qs" by simp
    then show ?thesis
      using "2.IH"(1) [OF None] q by fastforce
  qed
qed

lemma length_paragraph: "para \<in> set (paragraphsOf text) \<Longrightarrow> length para \<le> length text"
proof -
  assume "para \<in> set (paragraphsOf text)"
  then obtain p where p: "p \<in> set (splitBlank (trim (replaceCRLF text)))" and "para = trim p"
    by (auto simp: paragraphsOf_def)
  then have "length para \<le> length p"
    by (simp add: length_trim)
  also have "\<dots> \<le> length (trim (replaceCRLF text))"
    using p by (rule length_splitBlank)
  also have "\<dots> \<le> length (replaceCRLF text)"
    by (rule length_trim)
  also have "\<dots> \<le> length text"
    by (rule length_replaceCRLF)
  finally show ?thesis .
qed

definition weight :: "jsstring list \<Rightarrow> nat" where
  "weight ls = sum_list (map (\<lambda>l. Suc (length l)) ls)"

lemma weight_joinWith: "ls \<noteq> [] \<Longrightarrow> Suc (length (joinWith [LF] ls)) = weight ls"
  by (induction "[LF]" ls rule: joinWith.induct) (auto simp: weight_def)

lemma weight_splitOn: "weight (splitOn sep s) = Suc (length s)"
proof (induction s)
  case Nil
  show ?case by (simp add: weight_def)
next
  case (Cons c s)
  obtain p ps where "splitOn sep s = p # ps"
    using splitOn_not_Nil [of sep s] by (cases "splitOn sep s") auto
  with Cons show ?case by (simp add: weight_def)
qed

lemma weight_trimmed: "weight (filter (\<lambda>l. l \<noteq> []) (map trim xs)) \<le> weight xs"
proof (induction xs)
  case Nil
  show ?case by (simp add: weight_def)
next
  case (Cons x xs)
  then show ?case
    using length_trim [of x] by (simp add: weight_def)
qed

lemma weight_linesOf: "weight (linesOf para) \<le> Suc (length para)"
  using weight_trimmed [of "splitOn LF para"] by (simp add: linesOf_def weight_splitOn)

lemma rest_shorter:
  assumes "para \<in> set (paragraphsOf text)" and "1 < length (linesOf para)"
  shows "length (joinWith [LF] (tl (linesOf para))) < length text"
proof -
  from assms(2) obtain l l' ls where ls: "linesOf para = l # l' # ls"
    by (cases "linesOf para"; cases "tl (linesOf para)") auto
  have "Suc (length (joinWith [LF] (l' # ls))) = weight (l' # ls)"
    by (rule weight_joinWith) simp
  also have "\<dots> < weight (linesOf para)"
    by (simp add: ls weight_def)
  also have "\<dots> \<le> Suc (length para)"
    by (rule weight_linesOf)
  finally have "length (joinWith [LF] (l' # ls)) < length para" by simp
  with length_paragraph [OF assms(1)] show ?thesis by (simp add: ls)
qed

subsection \<open>parseAssistantTextToNodes\<close>

text \<open>
  The function of \<^verbatim>\<open>script.js\<close>, the nodes it pushes being the blocks: an empty text gives
  no node; each paragraph unit gives, in turn, a heading followed by the nodes of the
  remaining lines, parsed as a text of their own, or a list, or a paragraph.
\<close>

function parseAssistantTextToNodes :: "jsstring \<Rightarrow> block list" where
  "parseAssistantTextToNodes text =
     (if text = [] then []
      else concat (map
        (\<lambda>para.
           if 1 < length (linesOf para) \<and> re_test matchColonEnd (hd (linesOf para))
           then Heading (re_replace matchColonEnd (hd (linesOf para)))
                  # parseAssistantTextToNodes (joinWith [LF] (tl (linesOf para)))
           else listOrParagraph (linesOf para))
        (paragraphsOf text)))"
  by pat_completeness auto
termination
proof (relation "measure length")
  show "wf (measure length)" by simp
next
  fix t para
  assume "para \<in> set (paragraphsOf t)"
    and "1 < length (linesOf para) \<and> re_test matchColonEnd (hd (linesOf para))"
  then show "(joinWith [LF] (tl (linesOf para)), t) \<in> measure length"
    using rest_shorter [of para t] by simp
qed

declare parseAssistantTextToNodes.simps [simp del]

text \<open>The nodes of one paragraph unit, which is the body of \<^verbatim>\<open>paragraphs.forEach\<close>.\<close>

definition paragraphNodes :: "jsstring \<Rightarrow> block list" where
  "paragraphNodes = (\<lambda>para.
     if 1 < length (linesOf para) \<and> re_test matchColonEnd (hd (linesOf para))
     then Heading (re_replace matchColonEnd (hd (linesOf para)))
            # parseAssistantTextToNodes (joinWith [LF] (tl (linesOf para)))
     else listOrParagraph (linesOf para))"

lemma parse_paragraphs:
  "parseAssistantTextToNodes text =
     (if text = [] then [] else concat (map paragraphNodes (paragraphsOf text)))"
  unfolding paragraphNodes_def by (rule parseAssistantTextToNodes.simps)

lemma paragraphNodes_heading:
  "1 < length (linesOf para) \<and> re_test matchColonEnd (hd (linesOf para)) \<Longrightarrow>
   paragraphNodes para =
     Heading (re_replace matchColonEnd (hd (linesOf para)))
       # parseAssistantTextToNodes (joinWith [LF] (tl (linesOf para)))"
  unfolding paragraphNodes_def by (rule if_P)

lemma paragraphNodes_other:
  "\<not> (1 < length (linesOf para) \<and> re_test matchColonEnd (hd (linesOf para))) \<Longrightarrow>
   paragraphNodes para = listOrParagraph (linesOf para)"
  unfolding paragraphNodes_def by (rule if_not_P)

text \<open>The equations that evaluate the formatter on a given text.\<close>

lemmas format_eval =
  parse_paragraphs paragraphNodes_def js_def paragraphsOf_def linesOf_def trim_def
  isWhiteSpace_def isDigit_def matchNumbered_def matchBullet_def matchStep_def
  listOrParagraph_def Let_def afterLastLF_def re_test_def re_replace_def

section \<open>No list without an item\<close>

definition hasItems :: "block \<Rightarrow> bool" where
  "hasItems b =
     (case b of OrderedList items \<Rightarrow> items \<noteq> [] | UnorderedList items \<Rightarrow> items \<noteq> [] | _ \<Rightarrow> True)"

lemma fillList_keeps: "items \<noteq> [] \<Longrightarrow> fillList re items ls \<noteq> []"
  by (induction ls arbitrary: items) auto

lemma fillList_starts: "\<exists>l\<in>set ls. re_test re l \<Longrightarrow> fillList re items ls \<noteq> []"
proof (induction ls arbitrary: items)
  case Nil
  then show ?case by simp
next
  case (Cons l ls)
  then show ?case by (auto simp: fillList_keeps)
qed

lemma filter_some: "(Suc 0 \<le> length (filter P xs)) = (\<exists>x\<in>set xs. P x)"
  by (induction xs) auto

lemma filter_two: "2 \<le> length (filter P xs) \<Longrightarrow> \<exists>x\<in>set xs. P x"
  by (induction xs) (auto split: if_splits)

lemma listOrParagraph_hasItems: "b \<in> set (listOrParagraph lines) \<Longrightarrow> hasItems b"
  unfolding listOrParagraph_def Let_def
  by (auto simp: hasItems_def filter_some split: if_splits dest!: filter_two
      intro!: fillList_starts)

text \<open>
  C10. Every ordered and every unordered list among the blocks of a text has at least one
  item: a list is made only for a unit with a line that carries the marker, and each such
  line starts an item.
\<close>

theorem lists_have_items: "\<forall>b\<in>set (parseAssistantTextToNodes t). hasItems b"
proof (induction t rule: parseAssistantTextToNodes.induct)
  case (1 t)
  show ?case
  proof
    fix b
    assume "b \<in> set (parseAssistantTextToNodes t)"
    then obtain para where t: "t \<noteq> []" and para: "para \<in> set (paragraphsOf t)"
      and b: "b \<in> set (paragraphNodes para)"
      by (auto simp: parse_paragraphs [of t] split: if_splits)
    show "hasItems b"
    proof (cases "1 < length (linesOf para) \<and> re_test matchColonEnd (hd (linesOf para))")
      case True
      with b have "b = Heading (re_replace matchColonEnd (hd (linesOf para)))
          \<or> b \<in> set (parseAssistantTextToNodes (joinWith [LF] (tl (linesOf para))))"
        by (simp add: paragraphNodes_heading)
      then show ?thesis
        using "1.IH" [OF t para True] by (auto simp: hasItems_def)
    next
      case False
      with b have "b \<in> set (listOrParagraph (linesOf para))"
        by (simp add: paragraphNodes_other)
      then show ?thesis by (rule listOrParagraph_hasItems)
    qed
  qed
qed

theorem lists_have_items_witness:
  "OrderedList [js ''Cleanse''] \<in> set (parseAssistantTextToNodes (js ''1. Cleanse''))
   \<and> hasItems (OrderedList [js ''Cleanse''])"
proof -
  have "OrderedList [js ''Cleanse''] \<in> set (parseAssistantTextToNodes (js ''1. Cleanse''))"
    by (simp add: format_eval)
  with lists_have_items [of "js ''1. Cleanse''"] show ?thesis by blast
qed

section \<open>Blank texts and the heading rule\<close>




lemma matchColonEnd_colon:
  "list_all isWhiteSpace w \<Longrightarrow> matchColonEnd (h @ COLON # w) = Some h"
  by (induction h) (auto simp: isWhiteSpace_def)

lemma paragraphsOf_Nil: "paragraphsOf [] = []"
  by (simp add: paragraphsOf_def trim_def)

text \<open>
  C3. A paragraph unit of more than one line whose first line ends with a colon, white
  space behind the colon allowed, gives a heading with the text in front of that colon,
  and right behind the heading the blocks of the remaining lines, joined by line feeds and
  formatted as a text of their own; the blocks of the units before and after it stand
  before and after these. The example of the specification is evaluated as well.
\<close>

theorem heading_rule:
  assumes "paragraphsOf t = ps @ para # qs"
    and "linesOf para = (h @ COLON # w) # l # ls"
    and "list_all isWhiteSpace w"
  shows "parseAssistantTextToNodes t =
           concat (map paragraphNodes ps)
           @ Heading h # parseAssistantTextToNodes (joinWith [LF] (l # ls))
           @ concat (map paragraphNodes qs)
         \<and> parseAssistantTextToNodes (js ''Steps:\<newline>1. Cleanse\<newline>2. Moisturize'') =
             [Heading (js ''Steps''), OrderedList [js ''Cleanse'', js ''Moisturize'']]"
proof
  have colon: "matchColonEnd (h @ COLON # w) = Some h"
    using assms(3) by (rule matchColonEnd_colon)
  have "t \<noteq> []"
    using assms(1) paragraphsOf_Nil by auto
  moreover have "paragraphNodes para = Heading h # parseAssistantTextToNodes (joinWith [LF] (l # ls))"
    using assms(2) colon by (simp add: paragraphNodes_heading re_test_def re_replace_def)
  ultimately show "parseAssistantTextToNodes t =
           concat (map paragraphNodes ps)
           @ Heading h # parseAssistantTextToNodes (joinWith [LF] (l # ls))
           @ concat (map paragraphNodes qs)"
    using assms(1) by (simp add: parse_paragraphs [of t])
next
  show "parseAssistantTextToNodes (js ''Steps:\<newline>1. Cleanse\<newline>2. Moisturize'') =
             [Heading (js ''Steps''), OrderedList [js ''Cleanse'', js ''Moisturize'']]"
    by (simp add: format_eval)
qed

theorem heading_rule_witness:
  "paragraphsOf (js ''Intro\<newline>\<newline>Steps:\<newline>1. Cleanse\<newline>\<newline>Bye'')
     = [js ''Intro''] @ js ''Steps:\<newline>1. Cleanse'' # [js ''Bye'']
   \<and> linesOf (js ''Steps:\<newline>1. Cleanse'') = (js ''Steps'' @ COLON # []) # js ''1. Cleanse'' # []
   \<and> list_all isWhiteSpace []
   \<and> parseAssistantTextToNodes (js ''Intro\<newline>\<newline>Steps:\<newline>1. Cleanse\<newline>\<newline>Bye'')
      = [Paragraph (js ''Intro''), Heading (js ''Steps''), OrderedList [js ''Cleanse''],
         Paragraph (js ''Bye'')]"
proof -
  have ps: "paragraphsOf (js ''Intro\<newline>\<newline>Steps:\<newline>1. Cleanse\<newline>\<newline>Bye'')
     = [js ''Intro''] @ js ''Steps:\<newline>1. Cleanse'' # [js ''Bye'']"
    by (simp add: format_eval)
  have ls: "linesOf (js ''Steps:\<newline>1. Cleanse'') = (js ''Steps'' @ COLON # []) # js ''1. Cleanse'' # []"
    by (simp add: format_eval)
  have ws: "list_all isWhiteSpace []" by simp
  have rest: "parseAssistantTextToNodes (joinWith [LF] (js ''1. Cleanse'' # [])) = [OrderedList [js ''Cleanse'']]"
    by (simp add: format_eval)
  have intro: "concat (map paragraphNodes [js ''Intro'']) = [Paragraph (js ''Intro'')]"
    by (simp add: format_eval)
  have bye: "concat (map paragraphNodes [js ''Bye'']) = [Paragraph (js ''Bye'')]"
    by (simp add: format_eval)
  from heading_rule [OF ps ls ws] rest intro bye ps ls show ?thesis by simp
qed

section \<open>The product filter\<close>

text \<open>
  A product of \<^verbatim>\<open>products.json\<close>. The script reads the brand and the description through
  \<^verbatim>\<open>|| ""\<close>, so they may be missing; the field \<^verbatim>\<open>image\<close> is called \<open>image_url\<close> here.
\<close>

record product =
  name :: jsstring
  brand :: "jsstring option"
  category :: jsstring
  image_url :: jsstring
  description :: "jsstring option"

text \<open>\<^verbatim>\<open>v || ""\<close> for a value that is a string or missing.\<close>

definition orEmpty :: "jsstring option \<Rightarrow> jsstring" where
  "orEmpty v = (case v of None \<Rightarrow> [] | Some s \<Rightarrow> s)"

text \<open>\<^verbatim>\<open>String.prototype.includes\<close>: the search string starts at some position.\<close>

fun includesStr :: "jsstring \<Rightarrow> jsstring \<Rightarrow> bool" where
  "includesStr [] q \<longleftrightarrow> q = []"
| "includesStr (c # s) q \<longleftrightarrow> prefix q (c # s) \<or> includesStr s q"

text \<open>
  The filtering of \<^verbatim>\<open>applyFilters\<close>: the value of the category select, the value of the
  search box (None when the page has no search box), and the products in memory.
  \<^verbatim>\<open>String.prototype.toLowerCase\<close> follows the Unicode tables of the host and is a
  parameter.
\<close>

definition applyFilters ::
  "(jsstring \<Rightarrow> jsstring) \<Rightarrow> product list \<Rightarrow> jsstring \<Rightarrow> jsstring option \<Rightarrow> product list" where
  "applyFilters toLowerCase allProducts categoryValue searchValue =
     (let q = toLowerCase (trim (orEmpty searchValue));
          byCategory =
            (if categoryValue \<noteq> [] then filter (\<lambda>p. category p = categoryValue) allProducts
             else allProducts)
      in if q \<noteq> []
         then filter
           (\<lambda>p. includesStr
              (toLowerCase (name p @ [SP] @ orEmpty (brand p) @ [SP] @ orEmpty (description p)))
              q)
           byCategory
         else byCategory)"

text \<open>Lower case on ASCII, where it is what \<^verbatim>\<open>toLowerCase\<close> does.\<close>

definition lowerASCII :: "jsstring \<Rightarrow> jsstring" where
  "lowerASCII = map (\<lambda>c. if 65 \<le> c \<and> c \<le> 90 then c + 32 else c)"

lemma includes_sublist: "includesStr s q \<longleftrightarrow> sublist q s"
  by (induction s) (auto simp: sublist_Cons_right)

lemma filter_subseq: "subseq (filter P xs) xs"
  by (induction xs) auto

text \<open>
  C6, amended. The filter gives the products of the catalog, in their order, that have the
  selected category when one is selected and, when the trimmed query is not empty, have
  the lower-cased trimmed query as a substring of the lower-cased text made of the name,
  the brand and the description with one space between them. The claim has the three
  fields concatenated with nothing between them; the counterexample below is a query
  that such a concatenation contains and the text of the script does not.
  The hypothesis is the one property of \<^verbatim>\<open>toLowerCase\<close> that is used: only the empty
  string has an empty lower-case form.
\<close>

theorem filter_spaced:
  assumes "\<And>s. (lower s = []) = (s = [])"
  shows "applyFilters lower catalog cat search =
           filter (\<lambda>p. (cat \<noteq> [] \<longrightarrow> category p = cat) \<and>
                       (trim (orEmpty search) \<noteq> [] \<longrightarrow>
                          sublist (lower (trim (orEmpty search)))
                            (lower (name p @ [SP] @ orEmpty (brand p) @ [SP]
                                      @ orEmpty (description p)))))
             catalog
         \<and> subseq (applyFilters lower catalog cat search) catalog"
proof -
  have eq: "applyFilters lower catalog cat search =
           filter (\<lambda>p. (cat \<noteq> [] \<longrightarrow> category p = cat) \<and>
                       (trim (orEmpty search) \<noteq> [] \<longrightarrow>
                          sublist (lower (trim (orEmpty search)))
                            (lower (name p @ [SP] @ orEmpty (brand p) @ [SP]
                                      @ orEmpty (description p)))))
             catalog"
    by (simp add: applyFilters_def Let_def assms includes_sublist)
  show ?thesis
    unfolding eq using eq filter_subseq by simp
qed

lemma lowerASCII_Nil: "(lowerASCII s = []) = (s = [])"
  by (simp add: lowerASCII_def)

definition serum :: product where
  "serum = \<lparr>name = js ''Glow Serum'', brand = Some (js ''Lumi''), category = js ''skincare'',
            image_url = js ''serum.png'', description = None\<rparr>"

definition balm :: product where
  "balm = \<lparr>name = js ''Lip Balm'', brand = None, category = js ''makeup'',
           image_url = js ''balm.png'', description = Some (js ''Soft glow'')\<rparr>"

lemmas filter_eval = applyFilters_def Let_def orEmpty_def lowerASCII_def serum_def balm_def
  js_def trim_def isWhiteSpace_def

theorem filter_spaced_witness:
  "(\<forall>s. (lowerASCII s = []) = (s = []))
   \<and> applyFilters lowerASCII [serum, balm] (js ''skincare'') (Some (js '' GLOW ''))  = [serum]
   \<and> applyFilters lowerASCII [serum, balm] [] (Some (js ''glow'')) = [serum, balm]
   \<and> subseq [serum] [serum, balm]"
proof -
  have a: "applyFilters lowerASCII [serum, balm] (js ''skincare'') (Some (js '' GLOW ''))  = [serum]"
    by (simp add: filter_eval)
  have b: "applyFilters lowerASCII [serum, balm] [] (Some (js ''glow'')) = [serum, balm]"
    by (simp add: filter_eval)
  have "subseq (applyFilters lowerASCII [serum, balm] (js ''skincare'') (Some (js '' GLOW '')))
          [serum, balm]"
    using filter_spaced [of lowerASCII "[serum, balm]" "js ''skincare''" "Some (js '' GLOW '')",
        OF lowerASCII_Nil]
    by (rule conjunct2)
  then have c: "subseq [serum] [serum, balm]"
    by (simp only: a)
  show ?thesis
    using a b c lowerASCII_Nil by blast
qed

theorem filter_concatenation_counterexample:
  "sublist (lowerASCII (trim (js ''serumlumi'')))
     (lowerASCII (name serum @ orEmpty (brand serum) @ orEmpty (description serum)))
   \<and> applyFilters lowerASCII [serum] [] (Some (js ''serumlumi'')) = []"
proof
  have "lowerASCII (name serum @ orEmpty (brand serum) @ orEmpty (description serum))
      = js ''glow '' @ lowerASCII (trim (js ''serumlumi'')) @ []"
    by (simp add: filter_eval)
  then show "sublist (lowerASCII (trim (js ''serumlumi'')))
     (lowerASCII (name serum @ orEmpty (brand serum) @ orEmpty (description serum)))"
    unfolding sublist_def by blast
next
  show "applyFilters lowerASCII [serum] [] (Some (js ''serumlumi'')) = []"
    by (simp add: filter_eval)
qed

section \<open>The selection set\<close>

text \<open>
  \<^verbatim>\<open>selectedProducts\<close> is a \<^verbatim>\<open>Map\<close> from the key of a card to \<^verbatim>\<open>{ name, brand, image }\<close>.
  A \<^verbatim>\<open>Map\<close> keeps its entries in the order of insertion, and \<^verbatim>\<open>values()\<close> reads them in
  that order, so it is a list of entries with one entry for a key: \<^verbatim>\<open>delete\<close> takes the
  entry out, \<^verbatim>\<open>set\<close> writes the value of a key that is there in place and puts a new key
  last.
\<close>

record summary =
  item_name :: jsstring
  item_brand :: jsstring
  item_image :: jsstring

type_synonym selection = "(jsstring \<times> summary) list"

definition map_has :: "selection \<Rightarrow> jsstring \<Rightarrow> bool" where
  "map_has m k \<longleftrightarrow> k \<in> set (map fst m)"

definition map_delete :: "selection \<Rightarrow> jsstring \<Rightarrow> selection" where
  "map_delete m k = filter (\<lambda>e. fst e \<noteq> k) m"

definition map_set :: "selection \<Rightarrow> jsstring \<Rightarrow> summary \<Rightarrow> selection" where
  "map_set m k v =
     (if map_has m k then map (\<lambda>e. if fst e = k then (k, v) else e) m else m @ [(k, v)])"

text \<open>
  The click on a product card, behind the info button: the data attributes of the card are
  its key and its summary; a card with no key or an empty key changes nothing.
\<close>

definition toggle :: "jsstring option \<Rightarrow> summary \<Rightarrow> selection \<Rightarrow> selection" where
  "toggle key v m =
     (case key of
        None \<Rightarrow> m
      | Some k \<Rightarrow>
          if k = [] then m
          else if map_has m k then map_delete m k
          else map_set m k v)"

text \<open>The place of a key in the snapshot \<^verbatim>\<open>Array.from(selectedProducts.values())\<close>.\<close>

definition position :: "selection \<Rightarrow> jsstring \<Rightarrow> nat option" where
  "position m k = (if map_has m k then Some (length (takeWhile (\<lambda>e. fst e \<noteq> k) m)) else None)"

lemma map_delete_absent: "\<not> map_has m k \<Longrightarrow> map_delete m k = m"
  by (induction m) (auto simp: map_has_def map_delete_def)

lemma map_has_delete: "\<not> map_has (map_delete m k) k"
  by (auto simp: map_has_def map_delete_def)

lemma takeWhile_all: "\<not> map_has m k \<Longrightarrow> takeWhile (\<lambda>e. fst e \<noteq> k) m = m"
  by (induction m) (auto simp: map_has_def)

text \<open>
  C7, amended. Two clicks on the same card give the key back its presence or absence. A
  key that was absent leaves the selection exactly as it was. A key that was present
  comes back as the last entry, with the summary of the card, behind the other entries in
  their order: its place is the number of the other entries, which is its old place only
  when it was last already. A card with no key or an empty key changes nothing.
\<close>

theorem toggle_twice:
  "toggle (Some k) v (toggle (Some k) v m) =
     (if k = [] \<or> \<not> map_has m k then m else map_delete m k @ [(k, v)])
   \<and> toggle None v (toggle None v m) = m
   \<and> map_has (toggle (Some k) v (toggle (Some k) v m)) k = map_has m k
   \<and> (k \<noteq> [] \<and> map_has m k \<longrightarrow>
         position (toggle (Some k) v (toggle (Some k) v m)) k = Some (length (map_delete m k)))"
proof (cases "k = []")
  case True
  then show ?thesis by (simp add: toggle_def)
next
  case False
  show ?thesis
  proof (cases "map_has m k")
    case True
    have "toggle (Some k) v (toggle (Some k) v m) = map_delete m k @ [(k, v)]"
      using False True by (simp add: toggle_def map_has_delete map_set_def)
    moreover have "map_has (map_delete m k @ [(k, v)]) k"
      by (simp add: map_has_def)
    moreover have "takeWhile (\<lambda>e. fst e \<noteq> k) (map_delete m k @ [(k, v)]) = map_delete m k"
      using takeWhile_all [OF map_has_delete [of m k]] map_has_delete [of m k]
      by (simp add: takeWhile_append map_has_def)
    ultimately show ?thesis
      using False True by (simp add: position_def toggle_def)
  next
    case absent: False
    have "toggle (Some k) v m = m @ [(k, v)]"
      using False absent by (simp add: toggle_def map_set_def)
    moreover have "map_has (m @ [(k, v)]) k"
      by (simp add: map_has_def)
    moreover have "map_delete (m @ [(k, v)]) k = m"
      using map_delete_absent [OF absent] by (simp add: map_delete_def)
    ultimately have "toggle (Some k) v (toggle (Some k) v m) = m"
      using False by (simp add: toggle_def)
    then show ?thesis
      using False absent by (simp add: toggle_def)
  qed
qed

definition cleanser :: summary where
  "cleanser = \<lparr>item_name = js ''Cleanser'', item_brand = js ''CeraVe'', item_image = js ''c.png''\<rparr>"

definition toner :: summary where
  "toner = \<lparr>item_name = js ''Toner'', item_brand = js ''Lumi'', item_image = js ''t.png''\<rparr>"

lemmas selection_eval = toggle_def map_has_def map_delete_def map_set_def position_def js_def

theorem toggle_twice_witness:
  "map_has [(js ''Cleanser'', cleanser), (js ''Toner'', toner)] (js ''Toner'')
   \<and> toggle (Some (js ''Toner'')) toner
        (toggle (Some (js ''Toner'')) toner [(js ''Cleanser'', cleanser), (js ''Toner'', toner)])
      = [(js ''Cleanser'', cleanser), (js ''Toner'', toner)]
   \<and> position
        (toggle (Some (js ''Toner'')) toner
          (toggle (Some (js ''Toner'')) toner [(js ''Cleanser'', cleanser), (js ''Toner'', toner)]))
        (js ''Toner'') = Some 1
   \<and> \<not> map_has [(js ''Cleanser'', cleanser)] (js ''Toner'')
   \<and> toggle (Some (js ''Toner'')) toner
        (toggle (Some (js ''Toner'')) toner [(js ''Cleanser'', cleanser)])
      = [(js ''Cleanser'', cleanser)]"
proof -
  have has: "map_has [(js ''Cleanser'', cleanser), (js ''Toner'', toner)] (js ''Toner'')"
    by (simp add: selection_eval)
  have del: "map_delete [(js ''Cleanser'', cleanser), (js ''Toner'', toner)] (js ''Toner'')
      = [(js ''Cleanser'', cleanser)]"
    by (simp add: selection_eval)
  have hasnt: "\<not> map_has [(js ''Cleanser'', cleanser)] (js ''Toner'')"
    by (simp add: selection_eval)
  have ne: "js ''Toner'' \<noteq> []"
    by (simp add: js_def)
  have pos: "position [(js ''Cleanser'', cleanser), (js ''Toner'', toner)] (js ''Toner'') = Some 1"
    by (simp add: selection_eval)
  from toggle_twice [of "js ''Toner''" toner "[(js ''Cleanser'', cleanser), (js ''Toner'', toner)]"]
    toggle_twice [of "js ''Toner''" toner "[(js ''Cleanser'', cleanser)]"]
    has del hasnt ne pos
  show ?thesis by simp
qed

theorem toggle_position_counterexample:
  "toggle (Some (js ''Cleanser'')) cleanser
     (toggle (Some (js ''Cleanser'')) cleanser [(js ''Cleanser'', cleanser), (js ''Toner'', toner)])
     = [(js ''Toner'', toner), (js ''Cleanser'', cleanser)]
   \<and> position [(js ''Cleanser'', cleanser), (js ''Toner'', toner)] (js ''Cleanser'') = Some 0
   \<and> position
        (toggle (Some (js ''Cleanser'')) cleanser
          (toggle (Some (js ''Cleanser'')) cleanser [(js ''Cleanser'', cleanser), (js ''Toner'', toner)]))
        (js ''Cleanser'') = Some 1"
  by (simp add: selection_eval)

section \<open>The conversation and the two chat handlers\<close>

datatype role = System | User | Assistant

record message =
  role :: role
  content :: jsstring

text \<open>
  What the chat window shows: the text of a user entry, or the nodes of an assistant
  entry.
\<close>

datatype chat_entry = ChatUser jsstring | ChatAssistant "block list"

text \<open>
  The state of the page that the handlers read and write: the history sent to the
  completion endpoint, the children of the chat window, the selected products and the
  value of the text field.
\<close>

record page =
  conversationMessages :: "message list"
  chatWindow :: "chat_entry list"
  selectedProducts :: selection
  userInput :: jsstring

text \<open>
  \<^verbatim>\<open>appendAssistantMessage\<close> for a text: the nodes of the formatter, or one paragraph with the
  text as it is when the formatter gives none.
\<close>

definition assistantEntry :: "jsstring \<Rightarrow> chat_entry" where
  "assistantEntry text =
     ChatAssistant (if parseAssistantTextToNodes text = [] then [Paragraph text]
                    else parseAssistantTextToNodes text)"

definition appendAssistantMessage :: "jsstring \<Rightarrow> page \<Rightarrow> page" where
  "appendAssistantMessage text pg = pg\<lparr>chatWindow := chatWindow pg @ [assistantEntry text]\<rparr>"

text \<open>A number in a template string: its decimal digits.\<close>

fun decimal :: "nat \<Rightarrow> jsstring" where
  "decimal n = (if n < 10 then [48 + n] else decimal (n div 10) @ [48 + n mod 10])"

declare decimal.simps [simp del]

text \<open>
  The body of a request: the model, the whole history and the cap on the length of the
  reply (the temperature, 0.8 in both handlers, is left out).
\<close>

record request =
  model :: jsstring
  messages :: "message list"
  max_tokens :: nat

text \<open>
  What comes back from the endpoint: \<^verbatim>\<open>fetch\<close> or the reading of the body throws, with the
  message of the error; or the status is not a success, with the status and the text of
  the body; or the body is read, with \<^verbatim>\<open>data?.choices?.[0]?.message?.content\<close>, None when
  that is undefined or null.
\<close>

datatype outcome = Threw jsstring | NotOk nat jsstring | Replied "jsstring option"

text \<open>\<^verbatim>\<open>!apiKey\<close>: the key is missing or empty.\<close>

definition noKey :: "jsstring option \<Rightarrow> bool" where
  "noKey apiKey \<longleftrightarrow> apiKey = None \<or> apiKey = Some []"

definition keyNotice :: jsstring where
  "keyNotice = js ''OpenAI API key not found. Add your key to secrets.js and reload the page.''"

text \<open>
  The submit handler of the chat form up to the call of \<^verbatim>\<open>fetch\<close>: the new page and the
  request, None when no request is sent.
\<close>

definition submitStart :: "jsstring option \<Rightarrow> page \<Rightarrow> page \<times> request option" where
  "submitStart apiKey pg =
     (let text = trim (userInput pg) in
      if text = [] then (pg, None)
      else
        (let shown = pg\<lparr>chatWindow := chatWindow pg @ [ChatUser text], userInput := []\<rparr>;
             asked = shown\<lparr>conversationMessages :=
                        conversationMessages shown @ [\<lparr>role = User, content = text\<rparr>]\<rparr>
         in if noKey apiKey then (appendAssistantMessage keyNotice asked, None)
            else (appendAssistantMessage (js ''Thinking'' @ [8230]) asked,
                  Some \<lparr>model = js ''gpt-4o'', messages = conversationMessages asked,
                        max_tokens = 500\<rparr>)))"

text \<open>The prompt of the routine button, U+2014 standing between name and brand.\<close>

definition userPrompt :: "summary list \<Rightarrow> jsstring" where
  "userPrompt products =
     js ''I have the following selected products:\<newline>''
     @ joinWith [LF]
         (map (\<lambda>(i, p). decimal (i + 1) @ js ''. '' @ item_name p @ [SP, 8212, SP] @ item_brand p)
            (enumerate 0 products))
     @ js ''\<newline>\<newline>''
     @ js ''Please create a personalized routine that uses these products where appropriate. ''
     @ js ''Give step-by-step instructions (order, amount, frequency), and brief reasons for each step. ''
     @ js ''If a product is not suitable for daily use, note that and suggest alternatives or frequency.\<newline>\<newline>''
     @ js ''Return a clear, numbered routine that a user can follow.''"

text \<open>The click handler of the routine button up to the call of \<^verbatim>\<open>fetch\<close>.\<close>

definition generateStart :: "jsstring option \<Rightarrow> page \<Rightarrow> page \<times> request option" where
  "generateStart apiKey pg =
     (let products = map snd (selectedProducts pg) in
      if length products = 0
      then (appendAssistantMessage
              (js ''Please select one or more products before generating a routine.'') pg, None)
      else
        (let shown = pg\<lparr>chatWindow :=
                        chatWindow pg @ [ChatUser (js ''Generate routine for selected products.'')]\<rparr>;
             asked = shown\<lparr>conversationMessages :=
                        conversationMessages shown
                        @ [\<lparr>role = User, content = userPrompt products\<rparr>]\<rparr>
         in if noKey apiKey then (appendAssistantMessage keyNotice asked, None)
            else (appendAssistantMessage (js ''Generating a personalized routine...'') asked,
                  Some \<lparr>model = js ''gpt-4o'', messages = conversationMessages asked,
                        max_tokens = 700\<rparr>)))"

text \<open>
  The rest of either handler, which is the same text in both: it runs when the request
  has come back, on the page as it is then.
\<close>

definition chatFinish :: "outcome \<Rightarrow> page \<Rightarrow> page" where
  "chatFinish r pg =
     (case r of
        Threw msg \<Rightarrow> appendAssistantMessage (js ''Request failed: '' @ msg) pg
      | NotOk status errText \<Rightarrow>
          appendAssistantMessage (js ''Error from OpenAI: '' @ decimal status @ [SP] @ errText) pg
      | Replied assistantContent \<Rightarrow>
          (case assistantContent of
             None \<Rightarrow> appendAssistantMessage (js ''No response from the API. Try again later.'') pg
           | Some c \<Rightarrow>
               if c = []
               then appendAssistantMessage (js ''No response from the API. Try again later.'') pg
               else (appendAssistantMessage c pg)
                      \<lparr>conversationMessages :=
                         conversationMessages (appendAssistantMessage c pg)
                         @ [\<lparr>role = Assistant, content = c\<rparr>]\<rparr>))"

text \<open>The page when the script has loaded: the history is the one system message.\<close>

definition initialPage :: page where
  "initialPage =
     \<lparr>conversationMessages =
        [\<lparr>role = System,
          content =
            js ''You are a helpful skincare and beauty routine assistant. Answer only about skincare, haircare, makeup, fragrance, and routine-related follow-ups. ''
            @ js ''If asked something unrelated, reply: '' @ [39]
            @ js ''I can only help with routines and beauty topics '' @ [8212]
            @ js '' please ask something related.'' @ [39]
            @ js '' Keep answers concise and user friendly.''\<rparr>],
      chatWindow = [], selectedProducts = [], userInput = []\<rparr>"

text \<open>The failures of a request that has been sent, and the notice of each.\<close>

definition failed :: "outcome \<Rightarrow> bool" where
  "failed r =
     (case r of Threw msg \<Rightarrow> True | NotOk status errText \<Rightarrow> True
      | Replied c \<Rightarrow> c = None \<or> c = Some [])"




definition asking :: page where
  "asking = initialPage\<lparr>userInput := js '' Can I use it daily? ''\<rparr>"

definition picked :: page where
  "picked = initialPage\<lparr>selectedProducts := [(js ''Cleanser'', cleanser)]\<rparr>"

lemma asking_text: "trim (userInput asking) = js ''Can I use it daily?''"
  by (simp add: asking_def initialPage_def js_def trim_def isWhiteSpace_def)

lemma picked_products: "selectedProducts picked = [(js ''Cleanser'', cleanser)]"
  by (simp add: picked_def initialPage_def)

text \<open>
  C9, amended. A submission whose trimmed text is not empty, and a click on the routine
  button with at least one product selected, append one user message to the history, and
  the request, which is sent when there is a key, carries the history with that message.
  A reply that is not empty appends one assistant message with the text of the reply as it
  came, the chat window getting the formatted entry. A submission of white space only
  does nothing at all, and a click on the routine button with nothing selected shows a
  notice, appends no message and sends no request.
\<close>

theorem one_turn_each:
  "(trim (userInput pg) \<noteq> [] \<longrightarrow>
      conversationMessages (fst (submitStart k pg)) =
        conversationMessages pg @ [\<lparr>role = User, content = trim (userInput pg)\<rparr>]
      \<and> snd (submitStart k pg) =
          (if noKey k then None
           else Some \<lparr>model = js ''gpt-4o'',
                      messages = conversationMessages pg
                        @ [\<lparr>role = User, content = trim (userInput pg)\<rparr>],
                      max_tokens = 500\<rparr>))
   \<and> (selectedProducts pg \<noteq> [] \<longrightarrow>
      conversationMessages (fst (generateStart k pg)) =
        conversationMessages pg
        @ [\<lparr>role = User, content = userPrompt (map snd (selectedProducts pg))\<rparr>]
      \<and> snd (generateStart k pg) =
          (if noKey k then None
           else Some \<lparr>model = js ''gpt-4o'',
                      messages = conversationMessages pg
                        @ [\<lparr>role = User, content = userPrompt (map snd (selectedProducts pg))\<rparr>],
                      max_tokens = 700\<rparr>))
   \<and> (c \<noteq> [] \<longrightarrow>
      conversationMessages (chatFinish (Replied (Some c)) pg) =
        conversationMessages pg @ [\<lparr>role = Assistant, content = c\<rparr>]
      \<and> chatWindow (chatFinish (Replied (Some c)) pg) = chatWindow pg @ [assistantEntry c])
   \<and> (trim (userInput pg) = [] \<longrightarrow> submitStart k pg = (pg, None))
   \<and> (selectedProducts pg = [] \<longrightarrow>
      conversationMessages (fst (generateStart k pg)) = conversationMessages pg
      \<and> snd (generateStart k pg) = None)"
  by (simp add: submitStart_def generateStart_def chatFinish_def Let_def
      appendAssistantMessage_def)

theorem one_turn_each_witness:
  "trim (userInput asking) \<noteq> []
   \<and> conversationMessages (fst (submitStart (Some (js ''sk-1'')) asking))
       = conversationMessages asking @ [\<lparr>role = User, content = js ''Can I use it daily?''\<rparr>]
   \<and> snd (submitStart (Some (js ''sk-1'')) asking)
       = Some \<lparr>model = js ''gpt-4o'',
                messages = conversationMessages asking
                  @ [\<lparr>role = User, content = js ''Can I use it daily?''\<rparr>],
                max_tokens = 500\<rparr>
   \<and> selectedProducts picked \<noteq> []
   \<and> conversationMessages (fst (generateStart (Some (js ''sk-1'')) picked))
       = conversationMessages picked @ [\<lparr>role = User, content = userPrompt [cleanser]\<rparr>]
   \<and> js ''Yes.'' \<noteq> []
   \<and> conversationMessages (chatFinish (Replied (Some (js ''Yes.''))) asking)
       = conversationMessages asking @ [\<lparr>role = Assistant, content = js ''Yes.''\<rparr>]
   \<and> trim (userInput picked) = []
   \<and> submitStart (Some (js ''sk-1'')) picked = (picked, None)
   \<and> selectedProducts asking = []
   \<and> snd (generateStart (Some (js ''sk-1'')) asking) = None"
proof -
  have t: "trim (userInput asking) \<noteq> []"
    by (simp add: asking_text js_def)
  have p: "selectedProducts picked \<noteq> []"
    by (simp add: picked_products)
  have y: "js ''Yes.'' \<noteq> []"
    by (simp add: js_def)
  have key: "\<not> noKey (Some (js ''sk-1''))"
    by (simp add: noKey_def js_def)
  have b: "trim (userInput picked) = []"
    by (simp add: picked_def initialPage_def trim_def)
  have e: "selectedProducts asking = []"
    by (simp add: asking_def initialPage_def)
  from t p y key b e
    one_turn_each [of asking "Some (js ''sk-1'')" "js ''Yes.''"]
    one_turn_each [of picked "Some (js ''sk-1'')" "js ''Yes.''"]
  show ?thesis by (simp add: asking_text picked_products)
qed

theorem generate_nothing_selected_counterexample:
  "conversationMessages (fst (generateStart (Some (js ''sk-1'')) initialPage))
     = conversationMessages initialPage
   \<and> snd (generateStart (Some (js ''sk-1'')) initialPage) = None
   \<and> length (conversationMessages (fst (submitStart (Some (js ''sk-1'')) initialPage)))
     = length (conversationMessages initialPage)"
  by (simp add: generateStart_def submitStart_def initialPage_def trim_def
      appendAssistantMessage_def)

section \<open>The lines of a unit, and a unit made of lines\<close>

text \<open>
  A line of a paragraph unit is not empty, has no white space at either end and no line
  feed inside.
\<close>

definition properLine :: "jsstring \<Rightarrow> bool" where
  "properLine l \<longleftrightarrow> l \<noteq> [] \<and> \<not> isWhiteSpace (hd l) \<and> \<not> isWhiteSpace (last l) \<and> LF \<notin> set l"

lemma last_dropWhile: "dropWhile P xs \<noteq> [] \<Longrightarrow> last (dropWhile P xs) = last xs"
  by (induction xs) (auto split: if_splits)

lemma trim_hd: "trim x \<noteq> [] \<Longrightarrow> \<not> isWhiteSpace (hd (trim x))"
proof -
  assume ne: "trim x \<noteq> []"
  let ?y = "dropWhile isWhiteSpace x"
  let ?z = "dropWhile isWhiteSpace (rev ?y)"
  from ne have z: "?z \<noteq> []" by (simp add: trim_def)
  have y: "?y \<noteq> []"
  proof
    assume e: "?y = []"
    have "?z = []" unfolding e by simp
    with z show False by contradiction
  qed
  have "hd (trim x) = last ?z"
    using z by (simp add: trim_def hd_rev)
  also have "\<dots> = last (rev ?y)"
    using z by (rule last_dropWhile)
  also have "\<dots> = hd ?y"
    using y by (simp add: last_rev)
  finally show ?thesis
    using y hd_dropWhile [of isWhiteSpace x] by simp
qed

lemma trim_last: "trim x \<noteq> [] \<Longrightarrow> \<not> isWhiteSpace (last (trim x))"
proof -
  assume ne: "trim x \<noteq> []"
  let ?z = "dropWhile isWhiteSpace (rev (dropWhile isWhiteSpace x))"
  from ne have z: "?z \<noteq> []" by (simp add: trim_def)
  have "last (trim x) = hd ?z"
    using z by (simp add: trim_def last_rev)
  then show ?thesis
    using z hd_dropWhile [of isWhiteSpace "rev (dropWhile isWhiteSpace x)"] by simp
qed


lemma trim_id: "x \<noteq> [] \<Longrightarrow> \<not> isWhiteSpace (hd x) \<Longrightarrow> \<not> isWhiteSpace (last x) \<Longrightarrow> trim x = x"
proof -
  assume x: "x \<noteq> []" and h: "\<not> isWhiteSpace (hd x)" and l: "\<not> isWhiteSpace (last x)"
  from x h have a: "dropWhile isWhiteSpace x = x"
    by (cases x) auto
  from x l have "dropWhile isWhiteSpace (rev x) = rev x"
    by (cases "rev x") (auto simp: hd_rev [symmetric])
  with a show ?thesis by (simp add: trim_def)
qed




subsection \<open>Joining lines and splitting them again\<close>







lemma properLine_no_CR: "properLine l \<Longrightarrow> last l \<noteq> CR"
  by (auto simp: properLine_def isWhiteSpace_def)











section \<open>The items of a list, line by line\<close>

text \<open>
  What the list rules are to give, said for each line: a line with the marker starts an
  item, whose text is the line without the marker, trimmed, and behind it, each after one
  space, the lines without marker that follow it up to the next line with the marker;
  the lines without marker in front of the first item are in no item.
\<close>

fun itemsOf :: "pattern \<Rightarrow> jsstring list \<Rightarrow> jsstring list" where
  "itemsOf re [] = []"
| "itemsOf re (l # ls) =
     (if re_test re l
      then foldl (\<lambda>item c. item @ SP # c) (trim (re_replace re l))
             (takeWhile (\<lambda>x. \<not> re_test re x) ls) # itemsOf re ls
      else itemsOf re ls)"

lemma fillList_itemsOf_general:
  "fillList re items ls =
     (if items = [] then itemsOf re ls
      else butlast items
           @ [foldl (\<lambda>item c. item @ SP # c) (last items) (takeWhile (\<lambda>x. \<not> re_test re x) ls)]
           @ itemsOf re ls)"
proof (induction ls arbitrary: items)
  case Nil
  then show ?case by simp
next
  case (Cons l ls)
  show ?case
  proof (cases "re_test re l")
    case True
    then show ?thesis
      by (simp add: Cons.IH [of "items @ [trim (re_replace re l)]"])
  next
    case False
    then show ?thesis
      by (cases "items = []")
        (simp_all add: Cons.IH [of "butlast items @ [last items @ SP # l]"] Cons.IH [of "[]"])
  qed
qed

lemma fillList_itemsOf: "fillList re [] ls = itemsOf re ls"
  by (simp add: fillList_itemsOf_general)

text \<open>
  The step rule as the claim has it, with white space needed between the word and the
  digits, to be compared with \<open>matchStep\<close>.
\<close>

definition claimedStep :: pattern where
  "claimedStep s =
     (case dropWhile isWhiteSpace s of
        c1 # c2 # c3 # c4 # s1 \<Rightarrow>
          if (c1 = 83 \<or> c1 = 115) \<and> (c2 = 84 \<or> c2 = 116) \<and>
             (c3 = 69 \<or> c3 = 101) \<and> (c4 = 80 \<or> c4 = 112) \<and>
             takeWhile isWhiteSpace s1 \<noteq> []
          then (let s2 = dropWhile isWhiteSpace s1 in
                if takeWhile isDigit s2 = [] then None
                else (case dropWhile isDigit s2 of
                        [] \<Rightarrow> None
                      | c # s3 \<Rightarrow>
                          if c = COLON \<or> c = DOT \<or> c = RPAREN
                          then Some (dropWhile isWhiteSpace s3) else None))
          else None
      | _ \<Rightarrow> None)"

text \<open>The conditions of the numbered and the bulleted rule.\<close>

definition numberedUnit :: "jsstring list \<Rightarrow> bool" where
  "numberedUnit lines \<longleftrightarrow>
     length (filter (re_test matchNumbered) lines) \<ge> 1
     \<and> \<not> length (filter (re_test matchBullet) lines) \<ge> 1"

definition bulletedUnit :: "jsstring list \<Rightarrow> bool" where
  "bulletedUnit lines \<longleftrightarrow>
     length (filter (re_test matchBullet) lines) \<ge> 1
     \<and> \<not> length (filter (re_test matchNumbered) lines) \<ge> 1"

definition headingUnit :: "jsstring list \<Rightarrow> bool" where
  "headingUnit lines \<longleftrightarrow> 1 < length lines \<and> re_test matchColonEnd (hd lines)"

definition stepWord :: "nat \<Rightarrow> nat \<Rightarrow> nat \<Rightarrow> nat \<Rightarrow> bool" where
  "stepWord c1 c2 c3 c4 \<longleftrightarrow>
     (c1 = 83 \<or> c1 = 115) \<and> (c2 = 84 \<or> c2 = 116) \<and> (c3 = 69 \<or> c3 = 101) \<and> (c4 = 80 \<or> c4 = 112)"

lemma dropWhile_ws_skip:
  "\<forall>a\<in>set w. isWhiteSpace a \<Longrightarrow> r = [] \<or> \<not> isWhiteSpace (hd r) \<Longrightarrow>
   dropWhile isWhiteSpace (w @ r) = r"
  by (cases r) auto

lemma matchStep_shape:
  assumes w1: "\<forall>a\<in>set w1. isWhiteSpace a"
    and word: "stepWord c1 c2 c3 c4"
    and w2: "\<forall>a\<in>set w2. isWhiteSpace a"
    and ds: "ds \<noteq> []" "\<forall>d\<in>set ds. isDigit d"
    and c: "c = COLON \<or> c = DOT \<or> c = RPAREN"
    and w3: "\<forall>a\<in>set w3. isWhiteSpace a"
    and r: "r = [] \<or> \<not> isWhiteSpace (hd r)"
  shows "matchStep (w1 @ c1 # c2 # c3 # c4 # w2 @ ds @ c # w3 @ r) = Some r"
proof -
  have c1: "\<not> isWhiteSpace c1"
    using word by (auto simp: stepWord_def isWhiteSpace_def)
  have d: "\<not> isWhiteSpace (hd ds)"
    using ds by (cases ds) (auto simp: isDigit_def isWhiteSpace_def)
  have nd: "\<not> isDigit c"
    using c by (auto simp: isDigit_def)
  have a: "dropWhile isWhiteSpace (w1 @ c1 # c2 # c3 # c4 # w2 @ ds @ c # w3 @ r)
      = c1 # c2 # c3 # c4 # w2 @ ds @ c # w3 @ r"
    using w1 c1 by (intro dropWhile_ws_skip) auto
  have b: "dropWhile isWhiteSpace (w2 @ ds @ c # w3 @ r) = ds @ c # w3 @ r"
    using w2 d ds by (intro dropWhile_ws_skip) auto
  have t: "takeWhile isDigit (ds @ c # w3 @ r) = ds"
    using ds nd by simp
  have e: "dropWhile isDigit (ds @ c # w3 @ r) = c # w3 @ r"
    using ds nd by simp
  have f: "dropWhile isWhiteSpace (w3 @ r) = r"
    using w3 r by (rule dropWhile_ws_skip)
  show ?thesis
    unfolding matchStep_def a
    using word ds(1) c by (simp add: stepWord_def b t e f Let_def)
qed


text \<open>
  The strings of the step pattern, said without the regular expression: white space or
  none, the word in either case of each letter, white space or none, one digit or more,
  one of the three punctuation marks, white space or none, and the rest, which does not
  begin with white space.
\<close>

definition stepShape :: "jsstring \<Rightarrow> jsstring \<Rightarrow> bool" where
  "stepShape s r \<longleftrightarrow>
     (\<exists>w1 c1 c2 c3 c4 w2 ds c w3.
        s = w1 @ c1 # c2 # c3 # c4 # w2 @ ds @ c # w3 @ r
        \<and> list_all isWhiteSpace w1 \<and> stepWord c1 c2 c3 c4 \<and> list_all isWhiteSpace w2
        \<and> ds \<noteq> [] \<and> list_all isDigit ds \<and> (c = COLON \<or> c = DOT \<or> c = RPAREN)
        \<and> list_all isWhiteSpace w3 \<and> (r = [] \<or> \<not> isWhiteSpace (hd r)))"

lemma split_run: "s = takeWhile P s @ dropWhile P s"
  by simp

lemma matchStep_stepShape: "matchStep s = Some r \<longleftrightarrow> stepShape s r"
proof
  assume m: "matchStep s = Some r"
  let ?w1 = "takeWhile isWhiteSpace s"
  from m obtain c1 c2 c3 c4 s1 where s1: "dropWhile isWhiteSpace s = c1 # c2 # c3 # c4 # s1"
    by (auto simp: matchStep_def split: list.splits)
  let ?w2 = "takeWhile isWhiteSpace s1"
  let ?s2 = "dropWhile isWhiteSpace s1"
  let ?ds = "takeWhile isDigit ?s2"
  from m s1 have word: "stepWord c1 c2 c3 c4" and ds: "?ds \<noteq> []"
    by (auto simp: matchStep_def stepWord_def Let_def split: if_splits)
  from m s1 word ds obtain c s3 where s3: "dropWhile isDigit ?s2 = c # s3"
    and c: "c = COLON \<or> c = DOT \<or> c = RPAREN" and r: "r = dropWhile isWhiteSpace s3"
    by (auto simp: matchStep_def stepWord_def Let_def split: if_splits list.splits)
  let ?w3 = "takeWhile isWhiteSpace s3"
  have "s = ?w1 @ c1 # c2 # c3 # c4 # s1"
    using split_run [of s isWhiteSpace] s1 by simp
  also have "s1 = ?w2 @ ?s2" by simp
  also have "?s2 = ?ds @ c # s3"
    using split_run [of ?s2 isDigit] s3 by simp
  also have "s3 = ?w3 @ r"
    using r by simp
  finally have "s = ?w1 @ c1 # c2 # c3 # c4 # ?w2 @ ?ds @ c # ?w3 @ r" .
  moreover have "list_all isWhiteSpace ?w1" "list_all isWhiteSpace ?w2" "list_all isWhiteSpace ?w3"
    "list_all isDigit ?ds"
    by (auto simp: list_all_iff dest: set_takeWhileD)
  moreover have "r = [] \<or> \<not> isWhiteSpace (hd r)"
    unfolding r using hd_dropWhile [of isWhiteSpace s3] by blast
  ultimately show "stepShape s r"
    unfolding stepShape_def using word ds c by blast
next
  assume "stepShape s r"
  then show "matchStep s = Some r"
    unfolding stepShape_def by (auto simp: list_all_iff intro!: matchStep_shape)
qed

text \<open>
  C4, amended. For a paragraph unit that is taken by neither the heading rule, nor the
  numbered rule, nor the bulleted rule: when at least two of its lines match the step
  pattern of the script, whose strings are those of \<open>stepShape\<close>, the white space
  between the word and the digits being allowed to be missing, the unit gives one ordered list, each matching line starting an item with the
  marker taken off and each other line appended behind one space to the item before it,
  the lines in front of the first item being dropped; when fewer than two lines match,
  the unit gives the paragraph of the fallback. The claim asks for white space between
  the word and the digits; the counterexample is a unit of two lines without it.
\<close>

theorem step_rule:
  assumes "\<not> headingUnit (linesOf para)"
    and "\<not> numberedUnit (linesOf para)"
    and "\<not> bulletedUnit (linesOf para)"
  shows "(2 \<le> length (filter (re_test matchStep) (linesOf para)) \<longrightarrow>
            paragraphNodes para = [OrderedList (itemsOf matchStep (linesOf para))])
         \<and> (length (filter (re_test matchStep) (linesOf para)) < 2 \<longrightarrow>
            paragraphNodes para = [Paragraph (joinWith [SP] (linesOf para))])
         \<and> (matchStep l = Some r) = stepShape l r"
proof -
  have "paragraphNodes para = listOrParagraph (linesOf para)"
    using assms(1) by (auto simp: paragraphNodes_def headingUnit_def)
  then have "(2 \<le> length (filter (re_test matchStep) (linesOf para)) \<longrightarrow>
            paragraphNodes para = [OrderedList (itemsOf matchStep (linesOf para))])
         \<and> (length (filter (re_test matchStep) (linesOf para)) < 2 \<longrightarrow>
            paragraphNodes para = [Paragraph (joinWith [SP] (linesOf para))])"
    using assms(2,3)
    by (auto simp: listOrParagraph_def Let_def numberedUnit_def bulletedUnit_def fillList_itemsOf)
  then show ?thesis
    using matchStep_stepShape [of l r] by simp
qed

theorem step_rule_witness:
  "\<not> headingUnit (linesOf (js ''Prep\<newline>Step 1: Cleanse\<newline>gently\<newline>step2) Tone''))
   \<and> \<not> numberedUnit (linesOf (js ''Prep\<newline>Step 1: Cleanse\<newline>gently\<newline>step2) Tone''))
   \<and> \<not> bulletedUnit (linesOf (js ''Prep\<newline>Step 1: Cleanse\<newline>gently\<newline>step2) Tone''))
   \<and> 2 \<le> length (filter (re_test matchStep)
               (linesOf (js ''Prep\<newline>Step 1: Cleanse\<newline>gently\<newline>step2) Tone'')))
   \<and> paragraphNodes (js ''Prep\<newline>Step 1: Cleanse\<newline>gently\<newline>step2) Tone'')
       = [OrderedList [js ''Cleanse gently'', js ''Tone'']]
   \<and> \<not> headingUnit (linesOf (js ''Step 1: Cleanse\<newline>then tone''))
   \<and> \<not> numberedUnit (linesOf (js ''Step 1: Cleanse\<newline>then tone''))
   \<and> \<not> bulletedUnit (linesOf (js ''Step 1: Cleanse\<newline>then tone''))
   \<and> length (filter (re_test matchStep) (linesOf (js ''Step 1: Cleanse\<newline>then tone''))) < 2
   \<and> paragraphNodes (js ''Step 1: Cleanse\<newline>then tone'')
       = [Paragraph (js ''Step 1: Cleanse then tone'')]
   \<and> stepShape (js ''step2) Tone'') (js ''Tone'')"
proof -
  let ?a = "js ''Prep\<newline>Step 1: Cleanse\<newline>gently\<newline>step2) Tone''"
  let ?b = "js ''Step 1: Cleanse\<newline>then tone''"
  have la: "linesOf ?a = [js ''Prep'', js ''Step 1: Cleanse'', js ''gently'', js ''step2) Tone'']"
    by (simp add: format_eval)
  have lb: "linesOf ?b = [js ''Step 1: Cleanse'', js ''then tone'']"
    by (simp add: format_eval)
  have a1: "\<not> headingUnit (linesOf ?a)" unfolding la
    by (simp add: headingUnit_def format_eval)
  have a2: "\<not> numberedUnit (linesOf ?a)" unfolding la
    by (simp add: numberedUnit_def format_eval)
  have a3: "\<not> bulletedUnit (linesOf ?a)" unfolding la
    by (simp add: bulletedUnit_def format_eval)
  have a4: "2 \<le> length (filter (re_test matchStep) (linesOf ?a))" unfolding la
    by (simp add: format_eval)
  have a5: "itemsOf matchStep (linesOf ?a) = [js ''Cleanse gently'', js ''Tone'']" unfolding la
    by (simp add: format_eval)
  have b1: "\<not> headingUnit (linesOf ?b)" unfolding lb
    by (simp add: headingUnit_def format_eval)
  have b2: "\<not> numberedUnit (linesOf ?b)" unfolding lb
    by (simp add: numberedUnit_def format_eval)
  have b3: "\<not> bulletedUnit (linesOf ?b)" unfolding lb
    by (simp add: bulletedUnit_def format_eval)
  have b4: "length (filter (re_test matchStep) (linesOf ?b)) < 2" unfolding lb
    by (simp add: format_eval)
  have b5: "joinWith [SP] (linesOf ?b) = js ''Step 1: Cleanse then tone''" unfolding lb
    by (simp add: format_eval)
  have m: "matchStep (js ''step2) Tone'') = Some (js ''Tone'')"
    by (simp add: format_eval)
  from step_rule [OF a1 a2 a3, of "js ''step2) Tone''" "js ''Tone''"] m
  have sh: "stepShape (js ''step2) Tone'') (js ''Tone'')"
    by simp
  from step_rule [OF a1 a2 a3] a4 a5
  have ra: "paragraphNodes ?a = [OrderedList [js ''Cleanse gently'', js ''Tone'']]"
    by simp
  from step_rule [OF b1 b2 b3] b4 b5
  have rb: "paragraphNodes ?b = [Paragraph (js ''Step 1: Cleanse then tone'')]"
    by simp
  from a1 a2 a3 a4 ra b1 b2 b3 b4 rb sh show ?thesis by blast
qed

theorem step_without_space_counterexample:
  "length (filter (re_test claimedStep) (linesOf (js ''Step1: Cleanse\<newline>Step2: Tone''))) = 0
   \<and> parseAssistantTextToNodes (js ''Step1: Cleanse\<newline>Step2: Tone'')
       = [OrderedList [js ''Cleanse'', js ''Tone'']]"
  by (simp add: format_eval claimedStep_def)

section \<open>A text of plain lines\<close>

text \<open>Whether \<^verbatim>\<open>/\n\s*\n/\<close> matches somewhere in a text.\<close>

fun hasBlankSeparator :: "jsstring \<Rightarrow> bool" where
  "hasBlankSeparator [] \<longleftrightarrow> False"
| "hasBlankSeparator (c # s) \<longleftrightarrow> matchBlank (c # s) \<noteq> None \<or> hasBlankSeparator s"

definition markerLine :: "jsstring \<Rightarrow> bool" where
  "markerLine l \<longleftrightarrow> re_test matchNumbered l \<or> re_test matchBullet l \<or> re_test matchStep l"

lemma splitBlank_whole: "\<not> hasBlankSeparator s \<Longrightarrow> splitBlank s = [s]"
  by (induction s) auto

lemma trim_ws_Cons: "isWhiteSpace c \<Longrightarrow> trim (c # x) = trim x"
  by (simp add: trim_def)

lemma trim_Nil: "trim [] = []"
  by (simp add: trim_def)

lemma linesOf_dropWhile: "linesOf (dropWhile isWhiteSpace s) = linesOf s"
proof (induction s)
  case Nil
  show ?case by simp
next
  case (Cons c s)
  obtain p ps where p: "splitOn LF s = p # ps"
    using splitOn_not_Nil [of LF s] by (cases "splitOn LF s") auto
  show ?case
  proof (cases "isWhiteSpace c")
    case True
    then have "linesOf (c # s) = linesOf s"
      by (simp add: linesOf_def p trim_ws_Cons trim_Nil)
    with True Cons show ?thesis by simp
  next
    case False
    then show ?thesis by simp
  qed
qed

lemma trim_snoc_ws: "isWhiteSpace c \<Longrightarrow> trim (x @ [c]) = trim x"
proof (cases "\<forall>a\<in>set x. isWhiteSpace a")
  case True
  assume "isWhiteSpace c"
  with True have "dropWhile isWhiteSpace (x @ [c]) = []" and "dropWhile isWhiteSpace x = []"
    by simp_all
  then show ?thesis by (simp only: trim_def)
next
  case False
  assume c: "isWhiteSpace c"
  from False have "dropWhile isWhiteSpace (x @ [c]) = dropWhile isWhiteSpace x @ [c]"
    by (auto simp: dropWhile_append1)
  with c show ?thesis by (simp add: trim_def)
qed

lemma splitOn_snoc:
  "splitOn sep (s @ [c]) =
     (if c = sep then splitOn sep s @ [[]]
      else butlast (splitOn sep s) @ [last (splitOn sep s) @ [c]])"
proof (induction s)
  case Nil
  show ?case by simp
next
  case (Cons d s)
  obtain p ps where p: "splitOn sep s = p # ps"
    using splitOn_not_Nil [of sep s] by (cases "splitOn sep s") auto
  obtain q qs where q: "splitOn sep (s @ [c]) = q # qs"
    using splitOn_not_Nil [of sep "s @ [c]"] by (cases "splitOn sep (s @ [c])") auto
  from Cons p q show ?case
    by (cases ps) (auto split: if_splits)
qed

lemma linesOf_snoc_ws: "isWhiteSpace c \<Longrightarrow> linesOf (s @ [c]) = linesOf s"
proof -
  assume c: "isWhiteSpace c"
  have parts: "splitOn LF s = butlast (splitOn LF s) @ [last (splitOn LF s)]"
    using splitOn_not_Nil [of LF s] by simp
  show ?thesis
  proof (cases "c = LF")
    case True
    then show ?thesis by (simp add: linesOf_def splitOn_snoc trim_Nil)
  next
    case False
    have "linesOf (s @ [c]) =
        filter (\<lambda>l. l \<noteq> []) (map trim (butlast (splitOn LF s) @ [last (splitOn LF s) @ [c]]))"
      using False by (simp add: linesOf_def splitOn_snoc)
    also have "\<dots> =
        filter (\<lambda>l. l \<noteq> []) (map trim (butlast (splitOn LF s) @ [last (splitOn LF s)]))"
      using c by (simp add: trim_snoc_ws)
    also have "\<dots> = linesOf s"
      unfolding linesOf_def using parts by simp
    finally show ?thesis .
  qed
qed

lemma linesOf_append_ws: "\<forall>a\<in>set w. isWhiteSpace a \<Longrightarrow> linesOf (s @ w) = linesOf s"
proof (induction w arbitrary: s)
  case Nil
  show ?case by simp
next
  case (Cons c w)
  have "linesOf ((s @ [c]) @ w) = linesOf (s @ [c])"
    using Cons.IH [of "s @ [c]"] Cons.prems by simp
  with Cons.prems show ?case by (simp add: linesOf_snoc_ws)
qed

lemma linesOf_trim: "linesOf (trim s) = linesOf s"
proof -
  let ?y = "dropWhile isWhiteSpace s"
  have "?y = trim s @ rev (takeWhile isWhiteSpace (rev ?y))"
    unfolding trim_def rev_append [symmetric] takeWhile_dropWhile_id by simp
  moreover have "\<forall>a\<in>set (rev (takeWhile isWhiteSpace (rev ?y))). isWhiteSpace a"
    by (auto dest: set_takeWhileD)
  ultimately have "linesOf ?y = linesOf (trim s)"
    using linesOf_append_ws [of "rev (takeWhile isWhiteSpace (rev ?y))" "trim s"] by simp
  then show ?thesis by (simp add: linesOf_dropWhile)
qed

lemma trim_trim: "trim (trim s) = trim s"
proof (cases "trim s = []")
  case True
  then show ?thesis by (simp add: trim_Nil)
next
  case False
  then show ?thesis by (intro trim_id) (auto simp: trim_hd trim_last)
qed

lemma no_marker_paragraph:
  "\<forall>l\<in>set lines. \<not> markerLine l \<Longrightarrow> listOrParagraph lines = [Paragraph (joinWith [SP] lines)]"
proof -
  assume "\<forall>l\<in>set lines. \<not> markerLine l"
  then have "filter (re_test matchNumbered) lines = []"
    and "filter (re_test matchBullet) lines = []"
    and "filter (re_test matchStep) lines = []"
    by (auto simp: markerLine_def filter_empty_conv)
  then show ?thesis by (simp add: listOrParagraph_def)
qed

text \<open>
  C5, amended. A text that is not blank, has no blank-line separator when normalised and
  trimmed, has no line with a numbered, bulleted or step marker, and is not taken by the
  heading rule (it has one line, or its first line does not end with a colon) gives one
  paragraph, whose text is the trimmed non-empty lines of the text joined by single
  spaces. The claim leaves out the last condition, and a blank text gives no block at all.
\<close>

theorem plain_paragraph:
  assumes "trim (replaceCRLF t) \<noteq> []"
    and "\<not> hasBlankSeparator (trim (replaceCRLF t))"
    and "\<forall>l\<in>set (linesOf (replaceCRLF t)). \<not> markerLine l"
    and "\<not> headingUnit (linesOf (replaceCRLF t))"
  shows "parseAssistantTextToNodes t = [Paragraph (joinWith [SP] (linesOf (replaceCRLF t)))]"
proof -
  let ?T = "trim (replaceCRLF t)"
  have "t \<noteq> []"
    using assms(1) by (auto simp: trim_Nil)
  moreover have "paragraphsOf t = [?T]"
    using assms(1) by (simp add: paragraphsOf_def splitBlank_whole [OF assms(2)] trim_trim)
  ultimately have "parseAssistantTextToNodes t = paragraphNodes ?T"
    by (simp add: parse_paragraphs [of t])
  also have "\<dots> = listOrParagraph (linesOf (replaceCRLF t))"
    using assms(4) by (auto simp: paragraphNodes_def headingUnit_def linesOf_trim)
  also have "\<dots> = [Paragraph (joinWith [SP] (linesOf (replaceCRLF t)))]"
    using assms(3) by (rule no_marker_paragraph)
  finally show ?thesis .
qed

theorem plain_paragraph_witness:
  "trim (replaceCRLF (js ''  Use it daily\<newline> morning and night.\<newline>'')) \<noteq> []
   \<and> \<not> hasBlankSeparator (trim (replaceCRLF (js ''  Use it daily\<newline> morning and night.\<newline>'')))
   \<and> filter markerLine (linesOf (replaceCRLF (js ''  Use it daily\<newline> morning and night.\<newline>''))) = []
   \<and> \<not> headingUnit (linesOf (replaceCRLF (js ''  Use it daily\<newline> morning and night.\<newline>'')))
   \<and> parseAssistantTextToNodes (js ''  Use it daily\<newline> morning and night.\<newline>'')
       = [Paragraph (js ''Use it daily morning and night.'')]"
proof -
  let ?t = "js ''  Use it daily\<newline> morning and night.\<newline>''"
  have n: "trim (replaceCRLF ?t) = js ''Use it daily\<newline> morning and night.''"
    by (simp add: format_eval)
  have ls: "linesOf (replaceCRLF ?t) = [js ''Use it daily'', js ''morning and night.'']"
    by (simp add: format_eval)
  have a: "trim (replaceCRLF ?t) \<noteq> []"
    unfolding n by (simp add: js_def)
  have b: "\<not> hasBlankSeparator (trim (replaceCRLF ?t))"
    unfolding n by (simp add: js_def isWhiteSpace_def)
  have c: "filter markerLine (linesOf (replaceCRLF ?t)) = []"
    unfolding ls by (simp add: markerLine_def format_eval)
  then have c': "\<forall>l\<in>set (linesOf (replaceCRLF ?t)). \<not> markerLine l"
    by (simp add: filter_empty_conv)
  have d: "\<not> headingUnit (linesOf (replaceCRLF ?t))"
    unfolding ls by (simp add: headingUnit_def format_eval)
  have j: "joinWith [SP] (linesOf (replaceCRLF ?t)) = js ''Use it daily morning and night.''"
    unfolding ls by (simp add: js_def)
  from plain_paragraph [OF a b c' d] a b c d show ?thesis
    unfolding j by blast
qed

theorem heading_not_paragraph_counterexample:
  "trim (replaceCRLF (js ''Routine:\<newline>cleanse and moisturize'')) \<noteq> []
   \<and> \<not> hasBlankSeparator (trim (replaceCRLF (js ''Routine:\<newline>cleanse and moisturize'')))
   \<and> filter markerLine (linesOf (replaceCRLF (js ''Routine:\<newline>cleanse and moisturize''))) = []
   \<and> parseAssistantTextToNodes (js ''Routine:\<newline>cleanse and moisturize'')
       = [Heading (js ''Routine''), Paragraph (js ''cleanse and moisturize'')]"
  by (simp add: format_eval markerLine_def)

section \<open>The formatter on a call stack\<close>

















section \<open>The notice of a failure in the chat window\<close>
















section \<open>Where the lines of a unit go\<close>
























end
